theory Spec2Isabelle
  imports Complex_Main "HOL-Library.AList" "HOL-Library.Multiset"
begin

section \<open>The audio manager component (src/components/AudioManager.tsx)\<close>

text \<open>
  A shallow embedding of the React component \<^verbatim>\<open>AudioManager\<close>. Pure helpers
  (\<^verbatim>\<open>parseFileName\<close>, the \<^verbatim>\<open>groupedFiles\<close> reduction) are HOL functions; the handlers
  are state transformers on a record holding the component's state variables and refs.
  Whatever a handler awaits from the browser (the directory picker, a file read, the
  speech pipeline) is an argument of the handler: a sum with \<open>Inl\<close> for a rejection.
  Calls into the browser (audio element, object URLs, console) are appended to an
  ordered log, so that their order can be stated.
\<close>

subsection \<open>The two regular expressions\<close>

text \<open>
  Both regular expressions of the source are a fixed sequence of fifteen one-character
  atoms: \<^verbatim>\<open>\d\<close> (an ASCII digit) or a literal. The capture groups of the first do not
  change what it matches. File names are modelled as \<open>string\<close>; a character outside
  ASCII matches no atom of either expression.
\<close>

datatype atom = Digit | Lit char

fun atom_ok :: "atom \<Rightarrow> char \<Rightarrow> bool" where
  "atom_ok Digit c = (c \<in> set ''0123456789'')"
| "atom_ok (Lit l) c = (c = l)"

text \<open>\<open>match_here p s\<close>: the atoms \<open>p\<close> match a prefix of \<open>s\<close>.\<close>

fun match_here :: "atom list \<Rightarrow> string \<Rightarrow> bool" where
  "match_here [] s = True"
| "match_here (a # as) [] = False"
| "match_here (a # as) (c # cs) = (atom_ok a c \<and> match_here as cs)"

text \<open>
  \<^verbatim>\<open>s.match(/.../)\<close> without anchors: the leftmost position where the atoms match;
  the result is the rest of the input from that position on, \<open>None\<close> for \<^verbatim>\<open>null\<close>.
\<close>

fun regex_search :: "atom list \<Rightarrow> string \<Rightarrow> string option" where
  "regex_search p [] = (if match_here p [] then Some [] else None)"
| "regex_search p (c # cs) =
     (if match_here p (c # cs) then Some (c # cs) else regex_search p cs)"

text \<open>
  \<^verbatim>\<open>s.match(/^...$/)\<close>: without the multiline flag \<^verbatim>\<open>$\<close> is the end of the input,
  so the atoms must match the whole of \<open>s\<close>.
\<close>

definition regex_full :: "atom list \<Rightarrow> string \<Rightarrow> bool" where
  "regex_full p s = (match_here p s \<and> length s = length p)"

text \<open>Line 100: \<^verbatim>\<open>/(\d{2})(\d{2})(\d{2})_(\d{2})(\d{2})\.mp3/\<close>.\<close>

definition parse_pattern :: "atom list" where
  "parse_pattern =
     [Digit, Digit, Digit, Digit, Digit, Digit, Lit CHR ''_'',
      Digit, Digit, Digit, Digit, Lit CHR ''.'', Lit CHR ''m'', Lit CHR ''p'', Lit CHR ''3'']"

text \<open>Line 121: \<^verbatim>\<open>/^\d{6}_\d{4}\.mp3$/\<close>, the atoms between the anchors.\<close>

definition scan_pattern :: "atom list" where
  "scan_pattern =
     replicate 6 Digit @ [Lit CHR ''_''] @ replicate 4 Digit @
     [Lit CHR ''.'', Lit CHR ''m'', Lit CHR ''p'', Lit CHR ''3'']"

subsection \<open>The Date constructor\<close>

text \<open>
  \<^verbatim>\<open>new Date(year, monthIndex, day, hours, minutes)\<close> after ECMA-262: the time value is
  \<^verbatim>\<open>UTC(MakeDate(MakeDay(year, month, date), MakeTime(hours, minutes, 0, 0)))\<close>, in
  milliseconds. Month indices and days out of range roll over. The conversion from
  local time to UTC belongs to the host and is a parameter \<open>utc\<close>. A year between
  2000 and 2099 is not remapped to 1900 + year. The local values built from ten digits
  lie within a few decades of 2000, far inside the range where \<^verbatim>\<open>TimeClip\<close> is the
  identity, so no date built here is invalid.
\<close>

definition DayFromYear :: "int \<Rightarrow> int" where
  "DayFromYear y =
     365 * (y - 1970) + (y - 1969) div 4 - (y - 1901) div 100 + (y - 1601) div 400"

definition InLeapYear :: "int \<Rightarrow> bool" where
  "InLeapYear y = ((y mod 4 = 0 \<and> y mod 100 \<noteq> 0) \<or> y mod 400 = 0)"

definition DaysBeforeMonth :: "bool \<Rightarrow> int \<Rightarrow> int" where
  "DaysBeforeMonth leap mn =
     [0, 31, 59, 90, 120, 151, 181, 212, 243, 273, 304, 334] ! nat mn
       + (if leap \<and> 2 \<le> mn then 1 else 0)"

definition MakeDay :: "int \<Rightarrow> int \<Rightarrow> int \<Rightarrow> int" where
  "MakeDay yr month dt =
     (let ym = yr + month div 12; mn = month mod 12
      in DayFromYear ym + DaysBeforeMonth (InLeapYear ym) mn + dt - 1)"

definition MakeTime :: "int \<Rightarrow> int \<Rightarrow> int \<Rightarrow> int \<Rightarrow> int" where
  "MakeTime hour minute sec ms = hour * 3600000 + minute * 60000 + sec * 1000 + ms"

definition MakeDate :: "int \<Rightarrow> int \<Rightarrow> int" where
  "MakeDate dy tm = dy * 86400000 + tm"

definition new_Date :: "(int \<Rightarrow> int) \<Rightarrow> int \<Rightarrow> int \<Rightarrow> int \<Rightarrow> int \<Rightarrow> int \<Rightarrow> int" where
  "new_Date utc yr monthIndex dt hours minutes =
     utc (MakeDate (MakeDay yr monthIndex dt) (MakeTime hours minutes 0 0))"

text \<open>
  \<^verbatim>\<open>parseInt\<close> and the numeric conversion of the Date constructor, on a string of
  decimal digits (the only strings the capture groups can hold).
\<close>

definition digit_val :: "char \<Rightarrow> int" where
  "digit_val c = int (of_char c) - 48"

definition parseInt :: "string \<Rightarrow> int" where
  "parseInt s = foldl (\<lambda>acc c. 10 * acc + digit_val c) 0 s"

subsection \<open>parseFileName (lines 99-112)\<close>

record DateInfo =
  year :: string
  month :: string
  day :: string
  time :: string
  fullDate :: int

definition parseFileName :: "(int \<Rightarrow> int) \<Rightarrow> string \<Rightarrow> DateInfo option" where
  "parseFileName utc filename =
     (case regex_search parse_pattern filename of
        None \<Rightarrow> None
      | Some m \<Rightarrow>
          (let yy = take 2 m; mm = take 2 (drop 2 m); dd = take 2 (drop 4 m);
               hour = take 2 (drop 7 m); minute = take 2 (drop 9 m)
           in Some \<lparr> year = ''20'' @ yy, month = mm, day = dd,
                     time = hour @ '':'' @ minute,
                     fullDate = new_Date utc (parseInt (''20'' @ yy)) (parseInt mm - 1)
                                  (parseInt dd) (parseInt hour) (parseInt minute) \<rparr>))"

subsection \<open>Directory entries and audio files (lines 17-25)\<close>

datatype handle_kind = FileKind | DirectoryKind

text \<open>An entry of the directory enumeration: \<^verbatim>\<open>entry.kind\<close> and \<^verbatim>\<open>entry.name\<close>.\<close>

record FileSystemHandle =
  kind :: handle_kind
  hname :: string

text \<open>
  \<^verbatim>\<open>interface AudioFile\<close>: the fields of the parser's result (spread into the object
  at line 127) together with \<^verbatim>\<open>name\<close> and \<^verbatim>\<open>handle\<close>.
\<close>

record AudioFile = DateInfo +
  name :: string
  handle :: FileSystemHandle

definition make_file :: "FileSystemHandle \<Rightarrow> DateInfo \<Rightarrow> AudioFile" where
  "make_file entry dateInfo =
     \<lparr> year = year dateInfo, month = month dateInfo, day = day dateInfo,
       time = time dateInfo, fullDate = fullDate dateInfo,
       name = hname entry, handle = entry \<rparr>"

subsection \<open>Array.prototype.sort with a comparator\<close>

text \<open>
  A stable sort directed by a comparator that returns a number: \<open>x\<close> is placed before
  the first element \<open>y\<close> with \<open>cmp x y \<le> 0\<close>. Elements are inserted from the last one
  backwards, so elements that compare equal keep their order.
\<close>

fun insert_sorted :: "('a \<Rightarrow> 'a \<Rightarrow> int) \<Rightarrow> 'a \<Rightarrow> 'a list \<Rightarrow> 'a list" where
  "insert_sorted cmp x [] = [x]"
| "insert_sorted cmp x (y # ys) =
     (if cmp x y \<le> 0 then x # y # ys else y # insert_sorted cmp x ys)"

definition array_sort :: "('a \<Rightarrow> 'a \<Rightarrow> int) \<Rightarrow> 'a list \<Rightarrow> 'a list" where
  "array_sort cmp xs = foldr (insert_sorted cmp) xs []"

text \<open>Line 133: \<^verbatim>\<open>(a, b) => b.fullDate.getTime() - a.fullDate.getTime()\<close>.\<close>

definition by_date_desc :: "AudioFile \<Rightarrow> AudioFile \<Rightarrow> int" where
  "by_date_desc a b = fullDate b - fullDate a"

subsection \<open>Component state\<close>

type_synonym blob = nat
type_synonym url = nat

datatype pipeline = Pipeline

datatype js_error = JsError string

text \<open>Calls into the browser, in the order they are made.\<close>

datatype effect =
    AudioPause
  | AudioPlay
  | AudioSetSrc url
  | AudioSetCurrentTime real
  | CreateObjectURL blob url
  | RevokeObjectURL url
  | ConsoleError string
  | PipelineCall blob

text \<open>
  The state variables of lines 34-45 under their own names. \<open>objectUrls\<close> is the
  browser's store of live object URLs and \<open>urlsCreated\<close> numbers them; \<open>inFlight\<close>
  counts the pipeline calls that have not settled yet.
\<close>

record app_state =
  files :: "AudioFile list"
  selectedFile :: "AudioFile option"
  transcript :: string
  isTranscribing :: bool
  transcriptionProgress :: int
  isPlaying :: bool
  duration :: real
  currentTime :: real
  transciberRef :: "pipeline option"
  objectUrls :: "(url \<times> blob) list"
  urlsCreated :: nat
  inFlight :: nat
  effects :: "effect list"

definition initial_state :: app_state where
  "initial_state =
     \<lparr> files = [], selectedFile = None, transcript = '''', isTranscribing = False,
       transcriptionProgress = 0, isPlaying = False, duration = 0, currentTime = 0,
       transciberRef = None, objectUrls = [], urlsCreated = 0, inFlight = 0,
       effects = [] \<rparr>"

definition perform :: "effect \<Rightarrow> app_state \<Rightarrow> app_state" where
  "perform e s = s\<lparr> effects := effects s @ [e] \<rparr>"

definition createObjectURL :: "blob \<Rightarrow> app_state \<Rightarrow> url \<times> app_state" where
  "createObjectURL b s =
     (let u = urlsCreated s
      in (u, perform (CreateObjectURL b u)
               (s\<lparr> objectUrls := objectUrls s @ [(u, b)], urlsCreated := Suc u \<rparr>)))"

definition revokeObjectURL :: "url \<Rightarrow> app_state \<Rightarrow> app_state" where
  "revokeObjectURL u s =
     perform (RevokeObjectURL u)
       (s\<lparr> objectUrls := filter (\<lambda>(v, b). v \<noteq> u) (objectUrls s) \<rparr>)"

subsection \<open>Transcriber initialisation and audio events (lines 48-96)\<close>

definition initTranscriber :: "js_error + pipeline \<Rightarrow> app_state \<Rightarrow> app_state" where
  "initTranscriber loaded s =
     (case loaded of
        Inr p \<Rightarrow> s\<lparr> transciberRef := Some p \<rparr>
      | Inl err \<Rightarrow> perform (ConsoleError ''Error initializing transcriber:'') s)"

text \<open>
  \<^verbatim>\<open>Math.round\<close> rounds half up. The product is taken over the reals here; the
  double product of the source can fall on the other side of a half.
\<close>

definition progress_callback :: "string \<Rightarrow> real \<Rightarrow> app_state \<Rightarrow> app_state" where
  "progress_callback status progress s =
     (if status = ''progress''
      then s\<lparr> transcriptionProgress := \<lfloor>progress * 100 + 1 / 2\<rfloor> \<rparr>
      else s)"

definition handleTimeUpdate :: "real \<Rightarrow> app_state \<Rightarrow> app_state" where
  "handleTimeUpdate audio_currentTime s = s\<lparr> currentTime := audio_currentTime \<rparr>"

definition handleLoadedMetadata :: "real \<Rightarrow> app_state \<Rightarrow> app_state" where
  "handleLoadedMetadata audio_duration s = s\<lparr> duration := audio_duration \<rparr>"

definition handleEnded :: "app_state \<Rightarrow> app_state" where
  "handleEnded s = s\<lparr> isPlaying := False, currentTime := 0 \<rparr>"

subsection \<open>handleFolderSelect (lines 115-138)\<close>

text \<open>The body of the \<^verbatim>\<open>for await\<close> loop, over the entries the enumeration yields.\<close>

fun scan_entries ::
  "(int \<Rightarrow> int) \<Rightarrow> FileSystemHandle list \<Rightarrow> AudioFile list \<Rightarrow> AudioFile list" where
  "scan_entries utc [] audioFiles = audioFiles"
| "scan_entries utc (entry # rest) audioFiles =
     scan_entries utc rest
       (if kind entry = FileKind \<and> regex_full scan_pattern (hname entry)
        then (case parseFileName utc (hname entry) of
                Some dateInfo \<Rightarrow> audioFiles @ [make_file entry dateInfo]
              | None \<Rightarrow> audioFiles)
        else audioFiles)"

text \<open>
  What the handler awaits: the picker rejects (\<open>Inl\<close>), or it grants a directory whose
  enumeration yields a list of entries and then either ends (\<open>None\<close>) or throws.
  Either failure lands in the \<^verbatim>\<open>catch\<close> block, which only logs; \<^verbatim>\<open>setFiles\<close> is the
  last statement of the guarded block.
\<close>

type_synonym picked = "js_error + FileSystemHandle list \<times> js_error option"

definition handleFolderSelect :: "(int \<Rightarrow> int) \<Rightarrow> picked \<Rightarrow> app_state \<Rightarrow> app_state" where
  "handleFolderSelect utc picker s =
     (case picker of
        Inl err \<Rightarrow> perform (ConsoleError ''Error selecting folder:'') s
      | Inr (entries, thrown) \<Rightarrow>
          (let audioFiles = scan_entries utc entries []
           in case thrown of
                Some err \<Rightarrow> perform (ConsoleError ''Error selecting folder:'') s
              | None \<Rightarrow> s\<lparr> files := array_sort by_date_desc audioFiles \<rparr>))"

subsection \<open>transcribeAudio (lines 169-188)\<close>

text \<open>
  The function up to its \<^verbatim>\<open>await\<close>: the guard on the ref, the three state updates and
  the pipeline call. With no pipeline it sets the placeholder and returns.
\<close>

definition transcribeAudio :: "blob \<Rightarrow> app_state \<Rightarrow> app_state" where
  "transcribeAudio fileData s =
     (case transciberRef s of
        None \<Rightarrow> s\<lparr> transcript := ''Error: Transcription model not initialized'' \<rparr>
      | Some p \<Rightarrow>
          perform (PipelineCall fileData)
            (s\<lparr> isTranscribing := True, transcriptionProgress := 0, transcript := '''',
                inFlight := Suc (inFlight s) \<rparr>))"

text \<open>The rest of the function, run when the awaited pipeline call settles.\<close>

definition transcribe_settled :: "js_error + string \<Rightarrow> app_state \<Rightarrow> app_state" where
  "transcribe_settled result s =
     (let s1 = (case result of
                  Inr text \<Rightarrow> s\<lparr> transcript := text \<rparr>
                | Inl err \<Rightarrow> (perform (ConsoleError ''Transcription error:'') s)
                               \<lparr> transcript := ''Error transcribing file'' \<rparr>)
      in s1\<lparr> isTranscribing := False, inFlight := inFlight s - 1 \<rparr>)"

subsection \<open>handleFileSelect (lines 141-166)\<close>

text \<open>
  The function that \<^verbatim>\<open>handleFileSelect\<close> returns on success; it is the only place
  where an object URL is revoked.
\<close>

datatype cleanup = Revoke url

definition run_cleanup :: "cleanup \<Rightarrow> app_state \<Rightarrow> app_state" where
  "run_cleanup c s = (case c of Revoke u \<Rightarrow> revokeObjectURL u s)"

definition handleFileSelect ::
  "AudioFile \<Rightarrow> js_error + blob \<Rightarrow> app_state \<Rightarrow> app_state \<times> cleanup option" where
  "handleFileSelect file getFile s =
     (case getFile of
        Inl err \<Rightarrow> (perform (ConsoleError ''Error loading audio file:'') s, None)
      | Inr fileData \<Rightarrow>
          (let s1 = perform AudioPause s;
               (audioUrl, s2) = createObjectURL fileData s1;
               s3 = perform (AudioSetSrc audioUrl) s2;
               s4 = s3\<lparr> selectedFile := Some file, isPlaying := False, currentTime := 0 \<rparr>;
               s5 = transcribeAudio fileData s4
           in (s5, Some (Revoke audioUrl))))"

text \<open>
  Line 258, \<^verbatim>\<open>onClick={() => handleFileSelect(file)}\<close>: the click handler drops what
  \<^verbatim>\<open>handleFileSelect\<close> returns.
\<close>

definition file_onClick :: "AudioFile \<Rightarrow> js_error + blob \<Rightarrow> app_state \<Rightarrow> app_state" where
  "file_onClick file getFile s = fst (handleFileSelect file getFile s)"

subsection \<open>Playback controls (lines 191-204)\<close>

definition togglePlayPause :: "app_state \<Rightarrow> app_state" where
  "togglePlayPause s =
     (let s1 = (if isPlaying s then perform AudioPause s else perform AudioPlay s)
      in s1\<lparr> isPlaying := \<not> isPlaying s \<rparr>)"

text \<open>
  An element of a \<^verbatim>\<open>number[]\<close>: a finite number, \<^verbatim>\<open>NaN\<close> or one of the two
  infinities.
\<close>

datatype js_number = Finite real | NaN | PosInfinity | NegInfinity

text \<open>\<^verbatim>\<open>value[0]\<close>: the first element, \<open>None\<close> for \<^verbatim>\<open>undefined\<close> on an empty array.\<close>

definition array_first :: "'a list \<Rightarrow> 'a option" where
  "array_first xs = (case xs of [] \<Rightarrow> None | x # rest \<Rightarrow> Some x)"

text \<open>
  Line 202 assigns \<^verbatim>\<open>value[0]\<close> to the audio element's \<^verbatim>\<open>currentTime\<close>, an attribute
  of type double: the assignment throws a TypeError for \<^verbatim>\<open>undefined\<close> (which converts
  to \<^verbatim>\<open>NaN\<close>), for \<^verbatim>\<open>NaN\<close> and for an infinity, and then \<^verbatim>\<open>setCurrentTime\<close> at line
  203 is not reached. A finite number is accepted, whatever its sign or size.
\<close>

definition handleSeek :: "js_number list \<Rightarrow> app_state \<Rightarrow> js_error + app_state" where
  "handleSeek val s =
     (case array_first val of
        None \<Rightarrow> Inl (JsError ''TypeError'')
      | Some (Finite newTime) \<Rightarrow>
          Inr ((perform (AudioSetCurrentTime newTime) s)\<lparr> currentTime := newTime \<rparr>)
      | Some nonFinite \<Rightarrow> Inl (JsError ''TypeError''))"

subsection \<open>groupedFiles (lines 214-227)\<close>

text \<open>
  An object used as a dictionary is an association list of its own properties in
  creation order: \<open>map_of\<close> reads a property, \<open>AList.update\<close> writes one. The keys built
  here start with a digit, so none of them names a property inherited from
  \<^verbatim>\<open>Object.prototype\<close>. \<^verbatim>\<open>Object.entries\<close> lists integer-like keys such as the years
  in ascending order, not in creation order; the order of the keys is not modelled
  and no property below depends on it.
\<close>

type_synonym GroupedFiles = "(string \<times> (string \<times> AudioFile list) list) list"

definition group_step :: "GroupedFiles \<Rightarrow> AudioFile \<Rightarrow> GroupedFiles" where
  "group_step acc file =
     (let yearKey = year file;
          monthKey = year file @ ''-'' @ month file;
          months = (case map_of acc yearKey of None \<Rightarrow> [] | Some m \<Rightarrow> m);
          bucket = (case map_of months monthKey of None \<Rightarrow> [] | Some b \<Rightarrow> b)
      in AList.update yearKey (AList.update monthKey (bucket @ [file]) months) acc)"

definition groupedFiles :: "AudioFile list \<Rightarrow> GroupedFiles" where
  "groupedFiles fs = foldl group_step [] fs"

text \<open>
  All files of all buckets. The nested \<^verbatim>\<open>Object.entries\<close> loops of the render visit
  the same buckets, the years in ascending order.
\<close>

definition all_grouped :: "GroupedFiles \<Rightarrow> AudioFile list" where
  "all_grouped g = concat (map snd (concat (map snd g)))"

definition bucket_of :: "GroupedFiles \<Rightarrow> string \<Rightarrow> string \<Rightarrow> AudioFile list" where
  "bucket_of g yearKey monthKey =
     (case map_of g yearKey of
        None \<Rightarrow> []
      | Some months \<Rightarrow> (case map_of months monthKey of None \<Rightarrow> [] | Some b \<Rightarrow> b))"

subsection \<open>The component as a transition system\<close>

text \<open>
  One event per callback the browser can run. A folder click carries the host's
  conversion to UTC and what the picker and the enumeration deliver. A file click is
  taken together with the outcome of its file read; any file may be clicked, which
  only enlarges the set of reachable states. A transcription can settle only while one
  is in flight. A seek that throws leaves the state as it was.
\<close>

datatype event =
    InitSettled "js_error + pipeline"
  | PipelineProgress string real
  | FolderClick "int \<Rightarrow> int" picked
  | FileClick AudioFile "js_error + blob"
  | TranscriptionSettled "js_error + string"
  | PlayPauseClick
  | SliderChange "js_number list"
  | TimeUpdate real
  | LoadedMetadata real
  | Ended

fun app_step :: "event \<Rightarrow> app_state \<Rightarrow> app_state" where
  "app_step (InitSettled r) s = initTranscriber r s"
| "app_step (PipelineProgress status p) s = progress_callback status p s"
| "app_step (FolderClick utc picker) s = handleFolderSelect utc picker s"
| "app_step (FileClick file getFile) s = file_onClick file getFile s"
| "app_step (TranscriptionSettled r) s =
     (if inFlight s = 0 then s else transcribe_settled r s)"
| "app_step PlayPauseClick s = togglePlayPause s"
| "app_step (SliderChange val) s = (case handleSeek val s of Inl err \<Rightarrow> s | Inr s' \<Rightarrow> s')"
| "app_step (TimeUpdate t) s = handleTimeUpdate t s"
| "app_step (LoadedMetadata d) s = handleLoadedMetadata d s"
| "app_step Ended s = handleEnded s"

definition run :: "event list \<Rightarrow> app_state \<Rightarrow> app_state" where
  "run evs s = foldl (\<lambda>st ev. app_step ev st) s evs"

inductive reachable :: "app_state \<Rightarrow> bool" where
  reachable_init: "reachable initial_state"
| reachable_step: "reachable s \<Longrightarrow> reachable (app_step ev s)"

subsection \<open>Notions used in the properties\<close>

text \<open>A scan fails when the picker rejects or the enumeration throws at some point.\<close>

definition scan_failed :: "picked \<Rightarrow> bool" where
  "scan_failed picker =
     (case picker of Inl err \<Rightarrow> True | Inr (entries, thrown) \<Rightarrow> thrown \<noteq> None)"


text \<open>
  A monitor over a log of browser calls: every assignment of a source to the audio
  element happens while the element is paused, that is, after a \<^verbatim>\<open>pause()\<close> with no
  \<^verbatim>\<open>play()\<close> in between. The first argument says whether the element is paused when
  the log starts.
\<close>

fun paused_when_bound :: "bool \<Rightarrow> effect list \<Rightarrow> bool" where
  "paused_when_bound paused [] = True"
| "paused_when_bound paused (AudioPause # es) = paused_when_bound True es"
| "paused_when_bound paused (AudioPlay # es) = paused_when_bound False es"
| "paused_when_bound paused (AudioSetSrc u # es) = (paused \<and> paused_when_bound paused es)"
| "paused_when_bound paused (e # es) = paused_when_bound paused es"

text \<open>No year occurs twice among the keys, and no month key twice under one year.\<close>

definition keys_distinct :: "GroupedFiles \<Rightarrow> bool" where
  "keys_distinct g = (distinct (map fst g) \<and> (\<forall>p \<in> set g. distinct (map fst (snd p))))"

text \<open>What the scanner guarantees of every file it lists.\<close>

definition parsed_from_name :: "AudioFile \<Rightarrow> bool" where
  "parsed_from_name f =
     (regex_full scan_pattern (name f) \<and> hname (handle f) = name f
      \<and> kind (handle f) = FileKind
      \<and> year f = ''20'' @ take 2 (name f) \<and> month f = take 2 (drop 2 (name f)))"

subsection \<open>Example inputs\<close>

definition file_entry :: "string \<Rightarrow> FileSystemHandle" where
  "file_entry n = \<lparr> kind = FileKind, hname = n \<rparr>"

definition scenario_entries :: "FileSystemHandle list" where
  "scenario_entries =
     [file_entry ''231231_2359.mp3'', file_entry ''bad.mp3'', file_entry ''240101_0900.mp3'']"

text \<open>February 30th rolls over to March 1st: two names, one date.\<close>

definition rollover_entries :: "FileSystemHandle list" where
  "rollover_entries = [file_entry ''240230_0000.mp3'', file_entry ''240301_0000.mp3'']"

definition file_240101 :: AudioFile where
  "file_240101 =
     \<lparr> year = ''2024'', month = ''01'', day = ''01'', time = ''09:00'',
       fullDate = 1704099600000, name = ''240101_0900.mp3'',
       handle = file_entry ''240101_0900.mp3'' \<rparr>"

definition file_231231 :: AudioFile where
  "file_231231 =
     \<lparr> year = ''2023'', month = ''12'', day = ''31'', time = ''23:59'',
       fullDate = 1704067140000, name = ''231231_2359.mp3'',
       handle = file_entry ''231231_2359.mp3'' \<rparr>"

section \<open>Properties\<close>

subsection \<open>The file name parser\<close>

lemma scan_pattern_eq: "scan_pattern = parse_pattern"
  by (simp add: scan_pattern_def parse_pattern_def eval_nat_numeral)

lemma regex_search_here: "match_here p s \<Longrightarrow> regex_search p s = Some s"
  by (cases s) simp_all

lemma regex_search_None_iff:
  "regex_search p s = None \<longleftrightarrow> (\<forall>i. \<not> match_here p (drop i s))"
proof (induction s)
  case Nil
  then show ?case by simp
next
  case (Cons c cs)
  have "(\<forall>i. \<not> match_here p (drop i (c # cs))) \<longleftrightarrow>
        \<not> match_here p (c # cs) \<and> (\<forall>i. \<not> match_here p (drop i cs))"
  proof
    assume a: "\<forall>i. \<not> match_here p (drop i (c # cs))"
    have "\<not> match_here p (c # cs)" using a [rule_format, of 0] by simp
    moreover have "\<not> match_here p (drop i cs)" for i using a [rule_format, of "Suc i"] by simp
    ultimately show "\<not> match_here p (c # cs) \<and> (\<forall>i. \<not> match_here p (drop i cs))" by blast
  next
    assume b: "\<not> match_here p (c # cs) \<and> (\<forall>i. \<not> match_here p (drop i cs))"
    show "\<forall>i. \<not> match_here p (drop i (c # cs))"
    proof
      fix i show "\<not> match_here p (drop i (c # cs))" using b by (cases i) simp_all
    qed
  qed
  with Cons show ?case by simp
qed

lemma parseFileName_None_iff:
  "parseFileName utc fn = None \<longleftrightarrow> regex_search parse_pattern fn = None"
  by (simp add: parseFileName_def Let_def split: option.splits)

lemma parseFileName_here:
  assumes "match_here parse_pattern fn"
  shows "parseFileName utc fn =
     Some \<lparr> year = ''20'' @ take 2 fn, month = take 2 (drop 2 fn), day = take 2 (drop 4 fn),
            time = take 2 (drop 7 fn) @ '':'' @ take 2 (drop 9 fn),
            fullDate = new_Date utc (parseInt (''20'' @ take 2 fn)) (parseInt (take 2 (drop 2 fn)) - 1)
                         (parseInt (take 2 (drop 4 fn))) (parseInt (take 2 (drop 7 fn)))
                         (parseInt (take 2 (drop 9 fn))) \<rparr>"
  using regex_search_here [OF assms] by (simp add: parseFileName_def Let_def)

text \<open>
  Claim C9. For every file name of the form \<^verbatim>\<open>\d{6}_\d{4}\.mp3\<close> (the whole name, as the
  scanner tests it), \<^verbatim>\<open>parseFileName\<close> returns a result whose year is \<^verbatim>\<open>"20"\<close> followed by
  the first two digits of the name, and whose time is digits 7-8, a colon, digits 9-10
  (the characters at positions 7, 8 and 9, 10, the underscore being at position 6).
\<close>

theorem parseFileName_year_and_time:
  assumes "regex_full scan_pattern fn"
  shows "\<exists>d. parseFileName utc fn = Some d
           \<and> year d = ''20'' @ take 2 fn
           \<and> time d = take 2 (drop 7 fn) @ '':'' @ take 2 (drop 9 fn)"
proof -
  from assms have "match_here parse_pattern fn"
    by (simp add: regex_full_def scan_pattern_eq)
  from parseFileName_here [OF this] show ?thesis by simp
qed

theorem parseFileName_year_and_time_witness:
  "\<exists>d. parseFileName id ''240315_1430.mp3'' = Some d \<and> year d = ''2024'' \<and> time d = ''14:30''"
proof -
  have "regex_full scan_pattern ''240315_1430.mp3''"
    by (simp add: regex_full_def scan_pattern_def eval_nat_numeral)
  from parseFileName_year_and_time [OF this, of id] show ?thesis by simp
qed

lemma insert_sorted_set: "set (insert_sorted cmp x xs) = insert x (set xs)"
  by (induction xs) auto

lemma array_sort_set: "set (array_sort cmp xs) = set xs"
  by (induction xs) (simp_all add: array_sort_def insert_sorted_set)

lemma insert_sorted_mset: "mset (insert_sorted cmp x xs) = add_mset x (mset xs)"
  by (induction xs) auto

lemma array_sort_mset: "mset (array_sort cmp xs) = mset xs"
  by (induction xs) (simp_all add: array_sort_def insert_sorted_mset)

lemma scan_entries_origin:
  "f \<in> set (scan_entries utc es acc) \<Longrightarrow>
     f \<in> set acc \<or>
     (\<exists>e \<in> set es. kind e = FileKind \<and> regex_full scan_pattern (hname e)
         \<and> parseFileName utc (hname e) = Some (DateInfo.truncate f) \<and> name f = hname e \<and> handle f = e)"
proof (induction es arbitrary: acc)
  case Nil
  then show ?case by simp
next
  case (Cons e es)
  from Cons.IH [OF Cons.prems [simplified]] show ?case
    by (auto simp: make_file_def DateInfo.truncate_def split: if_splits option.splits)
qed

lemma not_full_bad: "\<not> regex_full scan_pattern ''bad.mp3''"
  by (simp add: regex_full_def scan_pattern_def)

text \<open>
  Claim C1, as stated, fails for the parser: its expression has no anchors, so a name
  that merely contains the pattern is parsed although it does not match the exact
  pattern.
\<close>

theorem parseFileName_unanchored_counterexample:
  "\<not> regex_full scan_pattern ''x240101_0900.mp3''
   \<and> parseFileName id ''x240101_0900.mp3'' \<noteq> None"
  by (simp add: regex_full_def scan_pattern_def parseFileName_def parse_pattern_def Let_def)

text \<open>
  Claim C1 (amended). \<^verbatim>\<open>parseFileName\<close> returns \<^verbatim>\<open>null\<close> exactly for the names that
  contain no occurrence of \<^verbatim>\<open>\d{6}_\d{4}\.mp3\<close> at any position; and after a successful
  scan no file whose name fails the exact pattern \<^verbatim>\<open>^\d{6}_\d{4}\.mp3$\<close> is in the file
  list.
\<close>

theorem parser_null_and_scanner_excludes:
  "(parseFileName utc fn = None \<longleftrightarrow> (\<forall>i. \<not> match_here parse_pattern (drop i fn)))
   \<and> (\<not> regex_full scan_pattern fn \<longrightarrow>
        fn \<notin> name ` set (files (handleFolderSelect utc (Inr (entries, None)) s)))"
proof
  show "parseFileName utc fn = None \<longleftrightarrow> (\<forall>i. \<not> match_here parse_pattern (drop i fn))"
    by (simp add: parseFileName_None_iff regex_search_None_iff)
next
  show "\<not> regex_full scan_pattern fn \<longrightarrow>
        fn \<notin> name ` set (files (handleFolderSelect utc (Inr (entries, None)) s))"
  proof (intro impI notI)
    assume nf: "\<not> regex_full scan_pattern fn"
    assume "fn \<in> name ` set (files (handleFolderSelect utc (Inr (entries, None)) s))"
    then obtain f where f: "f \<in> set (scan_entries utc entries [])" and n: "name f = fn"
      by (auto simp: handleFolderSelect_def array_sort_set)
    from scan_entries_origin [OF f] n nf show False by auto
  qed
qed

theorem parser_null_and_scanner_excludes_witness:
  "parseFileName id ''bad.mp3'' = None
   \<and> (\<forall>i. \<not> match_here parse_pattern (drop i ''bad.mp3''))
   \<and> ''bad.mp3'' \<notin>
        name ` set (files (handleFolderSelect id (Inr (scenario_entries, None)) initial_state))"
proof -
  have p: "parseFileName id ''bad.mp3'' = None"
    by (simp add: parseFileName_def parse_pattern_def)
  from parser_null_and_scanner_excludes [of id "''bad.mp3''" scenario_entries initial_state]
    p not_full_bad
  show ?thesis by blast
qed

subsection \<open>The directory scanner\<close>

lemmas date_defs =
  new_Date_def MakeDate_def MakeDay_def MakeTime_def DayFromYear_def DaysBeforeMonth_def
  InLeapYear_def parseInt_def digit_val_def

lemma parse_240101:
  "parseFileName id ''240101_0900.mp3'' = Some (DateInfo.truncate file_240101)"
  by (simp add: parseFileName_def parse_pattern_def Let_def date_defs file_240101_def
      DateInfo.truncate_def)

lemma parse_231231:
  "parseFileName id ''231231_2359.mp3'' = Some (DateInfo.truncate file_231231)"
  by (simp add: parseFileName_def parse_pattern_def Let_def date_defs file_231231_def
      DateInfo.truncate_def)

lemma full_240101: "regex_full scan_pattern ''240101_0900.mp3''"
  by (simp add: regex_full_def scan_pattern_def eval_nat_numeral)

lemma full_231231: "regex_full scan_pattern ''231231_2359.mp3''"
  by (simp add: regex_full_def scan_pattern_def eval_nat_numeral)

lemma scenario_scan_entries:
  "scan_entries id scenario_entries [] = [file_231231, file_240101]"
  by (simp add: scenario_entries_def file_entry_def full_240101 full_231231 not_full_bad
      parse_240101 parse_231231 make_file_def DateInfo.truncate_def file_240101_def
      file_231231_def)

text \<open>The scenario of the specification: three names, two listed, the newer one first.\<close>

lemma scenario_scan:
  "files (handleFolderSelect id (Inr (scenario_entries, None)) s) = [file_240101, file_231231]"
  by (simp add: handleFolderSelect_def scenario_scan_entries array_sort_def by_date_desc_def
       file_240101_def file_231231_def)

lemma insert_sorted_desc:
  "sorted_wrt (\<lambda>a b. fullDate b \<le> fullDate a) xs \<Longrightarrow>
   sorted_wrt (\<lambda>a b. fullDate b \<le> fullDate a) (insert_sorted by_date_desc x xs)"
  by (induction xs) (auto simp: insert_sorted_set by_date_desc_def)

lemma array_sort_desc:
  "sorted_wrt (\<lambda>a b. fullDate b \<le> fullDate a) (array_sort by_date_desc xs)"
  by (induction xs) (simp_all add: array_sort_def insert_sorted_desc)

lemma sorted_strict_if_distinct:
  "sorted_wrt (\<lambda>a b. fullDate b \<le> fullDate a) xs \<Longrightarrow> distinct (map fullDate xs) \<Longrightarrow>
   sorted_wrt (\<lambda>a b. fullDate b < fullDate a) xs"
proof (induction xs)
  case Nil
  then show ?case by simp
next
  case (Cons a xs)
  have "fullDate b < fullDate a" if "b \<in> set xs" for b
  proof -
    from Cons.prems(1) that have "fullDate b \<le> fullDate a" by simp
    moreover from Cons.prems(2) have "fullDate a \<notin> fullDate ` set xs" by simp
    with that have "fullDate b \<noteq> fullDate a" by (metis imageI)
    ultimately show ?thesis by simp
  qed
  with Cons show ?case by simp
qed

text \<open>
  Claim C2, read as a strictly decreasing order, fails: two names can give the same
  date (day 30 of February rolls over to March 1st), and both files are listed, one
  after the other, with equal \<^verbatim>\<open>fullDate\<close>.
\<close>

theorem equal_dates_counterexample:
  "map fullDate (files (handleFolderSelect id (Inr (rollover_entries, None)) initial_state))
     = [1709251200000, 1709251200000]
   \<and> map name (files (handleFolderSelect id (Inr (rollover_entries, None)) initial_state))
     = [''240230_0000.mp3'', ''240301_0000.mp3'']"
  by (simp add: handleFolderSelect_def rollover_entries_def file_entry_def regex_full_def
      scan_pattern_def eval_nat_numeral parseFileName_def parse_pattern_def Let_def date_defs
      make_file_def array_sort_def by_date_desc_def)

text \<open>
  Claim C2 (amended). After every successful folder scan, for any order in which the
  enumeration yields the entries, the file list is sorted by \<^verbatim>\<open>fullDate\<close>, newest first:
  no file is followed by a newer one. The order is strictly decreasing whenever the
  dates of the listed files are pairwise different.
\<close>

theorem scan_sorted_newest_first:
  "sorted_wrt (\<lambda>a b. fullDate b \<le> fullDate a)
     (files (handleFolderSelect utc (Inr (entries, None)) s))
   \<and> (distinct (map fullDate (files (handleFolderSelect utc (Inr (entries, None)) s))) \<longrightarrow>
        sorted_wrt (\<lambda>a b. fullDate b < fullDate a)
          (files (handleFolderSelect utc (Inr (entries, None)) s)))"
proof -
  have "sorted_wrt (\<lambda>a b. fullDate b \<le> fullDate a)
     (files (handleFolderSelect utc (Inr (entries, None)) s))"
    by (simp add: handleFolderSelect_def array_sort_desc)
  then show ?thesis by (blast intro: sorted_strict_if_distinct)
qed

theorem scan_sorted_newest_first_witness:
  "files (handleFolderSelect id (Inr (scenario_entries, None)) initial_state)
     = [file_240101, file_231231]
   \<and> distinct (map fullDate [file_240101, file_231231])
   \<and> sorted_wrt (\<lambda>a b. fullDate b < fullDate a) [file_240101, file_231231]"
proof -
  have d: "distinct (map fullDate [file_240101, file_231231])"
    by (simp add: file_240101_def file_231231_def)
  from scan_sorted_newest_first [of id scenario_entries initial_state] d
  show ?thesis by (simp add: scenario_scan)
qed

text \<open>
  Claim C4. If a folder scan fails (the picker rejects, or the enumeration throws after
  any number of entries), the error is caught and logged and the file list is exactly
  what it was before: neither cleared nor partly replaced.
\<close>

theorem scan_failure_keeps_files:
  assumes "scan_failed picker"
  shows "files (handleFolderSelect utc picker s) = files s
         \<and> handleFolderSelect utc picker s = perform (ConsoleError ''Error selecting folder:'') s"
  using assms
  by (auto simp: scan_failed_def handleFolderSelect_def perform_def
      split: sum.splits option.splits)

theorem scan_failure_keeps_files_witness:
  "files (handleFolderSelect id
            (Inr ([file_entry ''250101_0000.mp3''], Some (JsError ''NotReadableError'')))
            (handleFolderSelect id (Inr (scenario_entries, None)) initial_state))
     = [file_240101, file_231231]
   \<and> files (handleFolderSelect id (Inl (JsError ''AbortError''))
            (handleFolderSelect id (Inr (scenario_entries, None)) initial_state))
     = [file_240101, file_231231]"
proof -
  let ?s = "handleFolderSelect id (Inr (scenario_entries, None)) initial_state"
  have 1: "scan_failed
             (Inr ([file_entry ''250101_0000.mp3''], Some (JsError ''NotReadableError'')))"
    by (simp add: scan_failed_def)
  have 2: "scan_failed (Inl (JsError ''AbortError''))"
    by (simp add: scan_failed_def)
  show ?thesis
    using scan_failure_keeps_files [OF 1, THEN conjunct1, of id ?s]
      scan_failure_keeps_files [OF 2, THEN conjunct1, of id ?s]
    by (simp add: scenario_scan)
qed

subsection \<open>Grouping\<close>

lemma month_update_mset:
  "mset (concat (map snd (AList.update mk
       ((case map_of months mk of None \<Rightarrow> [] | Some b \<Rightarrow> b) @ [f]) months)))
   = add_mset f (mset (concat (map snd months)))"
  by (induction months) auto

lemma year_update_mset:
  assumes "mset (concat (map snd months')) =
           add_mset f (mset (concat (map snd (case map_of g y of None \<Rightarrow> [] | Some m \<Rightarrow> m))))"
  shows "mset (all_grouped (AList.update y months' g)) = add_mset f (mset (all_grouped g))"
  using assms by (induction g) (auto simp: all_grouped_def)

lemma group_step_mset:
  "mset (all_grouped (group_step g f)) = add_mset f (mset (all_grouped g))"
  unfolding group_step_def Let_def by (rule year_update_mset) (rule month_update_mset)

lemma foldl_group_step_mset:
  "mset (all_grouped (foldl group_step g fs)) = mset (all_grouped g) + mset fs"
  by (induction fs arbitrary: g) (simp_all add: group_step_mset)

lemma group_step_bucket:
  "bucket_of (group_step g f) y mk =
     bucket_of g y mk @ (if year f = y \<and> year f @ ''-'' @ month f = mk then [f] else [])"
  by (auto simp: bucket_of_def group_step_def Let_def update_conv' split: option.splits)

lemma foldl_group_step_bucket:
  "bucket_of (foldl group_step g fs) y mk =
     bucket_of g y mk @ filter (\<lambda>f. year f = y \<and> year f @ ''-'' @ month f = mk) fs"
  by (induction fs arbitrary: g) (auto simp: group_step_bucket)

lemma in_update_cases:
  "p \<in> set (AList.update k v al) \<Longrightarrow> p = (k, v) \<or> p \<in> set al"
  by (induction al) (auto split: if_splits)

lemma group_step_keys:
  assumes "keys_distinct g"
  shows "keys_distinct (group_step g f)"
proof -
  let ?months = "case map_of g (year f) of None \<Rightarrow> [] | Some m \<Rightarrow> m"
  let ?mk = "year f @ ''-'' @ month f"
  let ?bucket = "(case map_of ?months ?mk of None \<Rightarrow> [] | Some b \<Rightarrow> b) @ [f]"
  have "distinct (map fst ?months)"
  proof (cases "map_of g (year f)")
    case None
    then show ?thesis by simp
  next
    case (Some m)
    then have "(year f, m) \<in> set g" by (rule map_of_SomeD)
    with assms Some show ?thesis by (auto simp: keys_distinct_def)
  qed
  then have inner: "distinct (map fst (AList.update ?mk ?bucket ?months))"
    by (rule distinct_update)
  show ?thesis
    unfolding keys_distinct_def group_step_def Let_def
  proof (intro conjI ballI)
    show "distinct (map fst (AList.update (year f) (AList.update ?mk ?bucket ?months) g))"
      using assms by (simp add: keys_distinct_def distinct_update)
  next
    fix p
    assume "p \<in> set (AList.update (year f) (AList.update ?mk ?bucket ?months) g)"
    from in_update_cases [OF this] show "distinct (map fst (snd p))"
      using inner assms by (auto simp: keys_distinct_def)
  qed
qed

lemma foldl_group_step_keys:
  "keys_distinct g \<Longrightarrow> keys_distinct (foldl group_step g fs)"
  by (induction fs arbitrary: g) (simp_all add: group_step_keys)

lemma scenario_grouped:
  "groupedFiles [file_240101, file_231231] =
     [(''2024'', [(''2024-01'', [file_240101])]), (''2023'', [(''2023-12'', [file_231231])])]"
  by (simp add: groupedFiles_def group_step_def Let_def file_240101_def file_231231_def)

text \<open>
  Claim C3. For every file list, grouping is a lossless partition: the files of all
  (year, year-month) buckets taken together are the files of the list, each as often
  as the list holds it (nothing dropped, nothing added); no year key and no month key
  under a year occurs twice, so a file sits in one bucket only; and the bucket under
  a year and a year-month key is exactly the sublist of the files with that year and
  that key, in the order of the list.
\<close>

theorem groupedFiles_lossless_partition:
  "mset (all_grouped (groupedFiles fs)) = mset fs
   \<and> distinct (map fst (groupedFiles fs))
   \<and> (\<forall>p \<in> set (groupedFiles fs). distinct (map fst (snd p)))
   \<and> (\<forall>y mk. bucket_of (groupedFiles fs) y mk =
                filter (\<lambda>f. year f = y \<and> year f @ ''-'' @ month f = mk) fs)"
proof -
  have "keys_distinct (groupedFiles fs)"
    unfolding groupedFiles_def by (rule foldl_group_step_keys) (simp add: keys_distinct_def)
  then show ?thesis
    by (simp add: keys_distinct_def groupedFiles_def foldl_group_step_mset
        foldl_group_step_bucket all_grouped_def [of "[]"] bucket_of_def [of "[]"])
qed

theorem groupedFiles_lossless_partition_witness:
  "mset (all_grouped (groupedFiles [file_240101, file_231231])) = {#file_240101, file_231231#}
   \<and> bucket_of (groupedFiles [file_240101, file_231231]) ''2023'' ''2023-12'' = [file_231231]
   \<and> distinct (map fst [(''2024-01'', [file_240101])])
   \<and> groupedFiles [file_240101, file_231231] =
       [(''2024'', [(''2024-01'', [file_240101])]), (''2023'', [(''2023-12'', [file_231231])])]"
proof -
  note t = groupedFiles_lossless_partition [of "[file_240101, file_231231]"]
  from t have 1: "mset (all_grouped (groupedFiles [file_240101, file_231231])) =
      mset [file_240101, file_231231]"
    by (rule conjunct1)
  from t have "bucket_of (groupedFiles [file_240101, file_231231]) ''2023'' ''2023-12'' =
      filter (\<lambda>f. year f = ''2023'' \<and> year f @ ''-'' @ month f = ''2023-12'')
        [file_240101, file_231231]"
    by blast
  then have 2: "bucket_of (groupedFiles [file_240101, file_231231]) ''2023'' ''2023-12'' =
      [file_231231]"
    by (simp add: file_240101_def file_231231_def)
  from 1 2 scenario_grouped show ?thesis by simp
qed

subsection \<open>Selecting a file\<close>

lemma handleFileSelect_ok:
  "fst (handleFileSelect file (Inr fileData) s) =
     transcribeAudio fileData
       ((perform (AudioSetSrc (urlsCreated s))
          (perform (CreateObjectURL fileData (urlsCreated s))
             ((perform AudioPause s)
                \<lparr> objectUrls := objectUrls s @ [(urlsCreated s, fileData)],
                  urlsCreated := Suc (urlsCreated s) \<rparr>)))
        \<lparr> selectedFile := Some file, isPlaying := False, currentTime := 0 \<rparr>)"
  by (simp add: handleFileSelect_def createObjectURL_def perform_def Let_def)

lemma transcribeAudio_frame:
  "objectUrls (transcribeAudio b s) = objectUrls s"
  "urlsCreated (transcribeAudio b s) = urlsCreated s"
  "isPlaying (transcribeAudio b s) = isPlaying s"
  "currentTime (transcribeAudio b s) = currentTime s"
  "duration (transcribeAudio b s) = duration s"
  "selectedFile (transcribeAudio b s) = selectedFile s"
  "files (transcribeAudio b s) = files s"
  "transciberRef (transcribeAudio b s) = transciberRef s"
  by (simp_all add: transcribeAudio_def perform_def split: option.splits)

lemma transcribeAudio_effects:
  "effects (transcribeAudio b s) =
     effects s @ (case transciberRef s of None \<Rightarrow> [] | Some p \<Rightarrow> [PipelineCall b])"
  by (simp add: transcribeAudio_def perform_def split: option.splits)

lemma file_onClick_urls:
  "objectUrls (file_onClick file (Inr fileData) s) = objectUrls s @ [(urlsCreated s, fileData)]"
  "urlsCreated (file_onClick file (Inr fileData) s) = Suc (urlsCreated s)"
  by (simp_all add: file_onClick_def handleFileSelect_ok transcribeAudio_frame perform_def)

lemma file_onClick_effects:
  "effects (file_onClick file (Inr fileData) s) =
     effects s
       @ [AudioPause, CreateObjectURL fileData (urlsCreated s), AudioSetSrc (urlsCreated s)]
       @ (case transciberRef s of None \<Rightarrow> [] | Some p \<Rightarrow> [PipelineCall fileData])"
  by (simp add: file_onClick_def handleFileSelect_ok transcribeAudio_effects
      transcribeAudio_frame perform_def)

text \<open>No callback ever removes an object URL from the store: the store only grows.\<close>

lemma app_step_urls_grow:
  "\<exists>more. objectUrls (app_step ev s) = objectUrls s @ more"
proof (cases ev)
  case (FileClick af getFile)
  then show ?thesis
    by (cases getFile)
       (simp_all add: file_onClick_urls, simp add: file_onClick_def handleFileSelect_def perform_def)
qed (auto simp: initTranscriber_def progress_callback_def handleFolderSelect_def perform_def
      transcribe_settled_def togglePlayPause_def handleSeek_def handleTimeUpdate_def
      handleLoadedMetadata_def handleEnded_def Let_def array_first_def
      split: sum.splits option.splits list.splits prod.splits js_number.splits)

lemma run_urls_grow: "\<exists>more. objectUrls (run evs s) = objectUrls s @ more"
proof (induction evs arbitrary: s)
  case Nil
  then show ?case by (simp add: run_def)
next
  case (Cons ev evs)
  from Cons [of "app_step ev s"] app_step_urls_grow [of ev s] show ?case
    by (auto simp: run_def)
qed

text \<open>
  Claim C5 does not hold of the code. Two selections in a row leave two object URLs
  live: the function that would revoke the first one is returned by \<^verbatim>\<open>handleFileSelect\<close>
  and dropped by the click handler.
\<close>

theorem object_urls_accumulate:
  "objectUrls
     (run [FileClick file_240101 (Inr 7), FileClick file_231231 (Inr 8)] initial_state)
     = [(0, 7), (1, 8)]"
  by (simp add: run_def file_onClick_urls initial_state_def)




text \<open>
  Claim C7. Whenever a file is selected, also while another one is playing, the audio
  element is paused before the new source is bound to it: the browser calls of a
  successful \<^verbatim>\<open>handleFileSelect\<close> are, in this order, the pause, the creation of the
  object URL and the assignment of that URL as the source, so the assignment finds the
  element paused whatever it was doing before. When the file read fails, no source is
  bound at all.
\<close>

theorem pause_precedes_bind:
  "effects (fst (handleFileSelect file (Inr fileData) s)) =
     effects s
       @ [AudioPause, CreateObjectURL fileData (urlsCreated s), AudioSetSrc (urlsCreated s)]
       @ (case transciberRef s of None \<Rightarrow> [] | Some p \<Rightarrow> [PipelineCall fileData])
   \<and> paused_when_bound False
       (drop (length (effects s)) (effects (fst (handleFileSelect file (Inr fileData) s))))
   \<and> effects (fst (handleFileSelect file (Inl err) s)) =
       effects s @ [ConsoleError ''Error loading audio file:'']"
proof -
  have e: "effects (fst (handleFileSelect file (Inr fileData) s)) =
     effects s
       @ [AudioPause, CreateObjectURL fileData (urlsCreated s), AudioSetSrc (urlsCreated s)]
       @ (case transciberRef s of None \<Rightarrow> [] | Some p \<Rightarrow> [PipelineCall fileData])"
    using file_onClick_effects [of "file" fileData s] by (simp add: file_onClick_def)
  have "paused_when_bound False
       (drop (length (effects s)) (effects (fst (handleFileSelect file (Inr fileData) s))))"
    unfolding e by (simp split: option.splits)
  moreover have "effects (fst (handleFileSelect file (Inl err) s)) =
       effects s @ [ConsoleError ''Error loading audio file:'']"
    by (simp add: handleFileSelect_def perform_def)
  ultimately show ?thesis using e by blast
qed

theorem pause_precedes_bind_witness:
  "effects (fst (handleFileSelect file_231231 (Inr 8)
      (togglePlayPause (fst (handleFileSelect file_240101 (Inr 7) initial_state)))))
   = [AudioPause, CreateObjectURL 7 0, AudioSetSrc 0, AudioPlay,
      AudioPause, CreateObjectURL 8 1, AudioSetSrc 1]"
proof -
  let ?s = "togglePlayPause (fst (handleFileSelect file_240101 (Inr 7) initial_state))"
  have s: "effects ?s = [AudioPause, CreateObjectURL 7 0, AudioSetSrc 0, AudioPlay]"
       "urlsCreated ?s = 1" "transciberRef ?s = None"
    by (simp_all add: togglePlayPause_def handleFileSelect_ok transcribeAudio_frame
        transcribeAudio_effects perform_def initial_state_def Let_def)
  from pause_precedes_bind [of file_231231 8 ?s, THEN conjunct1] show ?thesis
    by (simp add: s)
qed

subsection \<open>Transcription\<close>






subsection \<open>Seeking\<close>

text \<open>
  Claim C10, as stated, fails: a non-empty array is not enough. When the first element
  is \<^verbatim>\<open>NaN\<close> the assignment at line 202 throws and the position is not set.
\<close>

theorem handleSeek_nan_counterexample:
  "[NaN] \<noteq> [] \<and> handleSeek [NaN] initial_state = Inl (JsError ''TypeError'')"
  by (simp add: handleSeek_def array_first_def)

text \<open>
  Claim C10 (amended). \<^verbatim>\<open>handleSeek\<close> reads only the first element of its array and
  tests neither for emptiness nor for finiteness. It returns normally exactly when the
  array is not empty and its first element is a finite number, and then the playback
  position, in the state and on the audio element, is that element. On an empty array
  and on a first element that is \<^verbatim>\<open>NaN\<close> or an infinity it throws and changes nothing.
\<close>

theorem handleSeek_first_element:
  "((\<exists>s'. handleSeek val s = Inr s') \<longleftrightarrow> (\<exists>x rest. val = Finite x # rest))
   \<and> (\<forall>x rest. val = Finite x # rest \<longrightarrow>
        handleSeek val s = Inr (s \<lparr> currentTime := x,
                                    effects := effects s @ [AudioSetCurrentTime x] \<rparr>))
   \<and> ((\<forall>x rest. val \<noteq> Finite x # rest) \<longrightarrow>
        handleSeek val s = Inl (JsError ''TypeError''))
   \<and> (\<forall>v rest. val = v # rest \<longrightarrow> handleSeek val s = handleSeek [v] s)"
proof (cases val)
  case Nil
  then show ?thesis by (simp add: handleSeek_def array_first_def)
next
  case (Cons v rest)
  then show ?thesis
    by (cases v) (simp_all add: handleSeek_def array_first_def perform_def)
qed

theorem handleSeek_first_element_witness:
  "handleSeek [Finite 42, NaN] initial_state =
     Inr (initial_state \<lparr> currentTime := 42, effects := [AudioSetCurrentTime 42] \<rparr>)
   \<and> handleSeek [] initial_state = Inl (JsError ''TypeError'')
   \<and> handleSeek [PosInfinity, Finite 1] initial_state = Inl (JsError ''TypeError'')"
proof -
  have 1: "handleSeek [Finite 42, NaN] initial_state =
     Inr (initial_state \<lparr> currentTime := 42,
            effects := effects initial_state @ [AudioSetCurrentTime 42] \<rparr>)"
    using handleSeek_first_element [of "[Finite 42, NaN]" initial_state] by blast
  have 2: "handleSeek [] initial_state = Inl (JsError ''TypeError'')"
    using handleSeek_first_element [of "[]" initial_state] by blast
  have 3: "handleSeek [PosInfinity, Finite 1] initial_state = Inl (JsError ''TypeError'')"
    using handleSeek_first_element [of "[PosInfinity, Finite 1]" initial_state] by simp
  from 1 2 3 show ?thesis by (simp add: initial_state_def)
qed

subsection \<open>The file list in reachable states\<close>

lemma scanned_parsed_from_name:
  assumes "f \<in> set (files (handleFolderSelect utc (Inr (entries, None)) s))"
  shows "parsed_from_name f"
proof -
  from assms have "f \<in> set (scan_entries utc entries [])"
    by (simp add: handleFolderSelect_def array_sort_set)
  from scan_entries_origin [OF this] obtain e where
    e: "kind e = FileKind" "regex_full scan_pattern (hname e)"
       "parseFileName utc (hname e) = Some (DateInfo.truncate f)" "name f = hname e" "handle f = e"
    by auto
  from e(2) have "match_here parse_pattern (hname e)"
    by (simp add: regex_full_def scan_pattern_eq)
  from parseFileName_here [OF this, of utc] e(3)
  have "year f = ''20'' @ take 2 (hname e)" "month f = take 2 (drop 2 (hname e))"
    by (simp_all add: DateInfo.truncate_def)
  with e show ?thesis by (simp add: parsed_from_name_def)
qed

lemma app_step_files:
  "files (app_step ev s) = files s \<or>
   (\<exists>utc entries. files (app_step ev s) = files (handleFolderSelect utc (Inr (entries, None)) s))"
proof (cases ev)
  case (FolderClick utc picker)
  show ?thesis
  proof (cases "scan_failed picker")
    case True
    then show ?thesis using FolderClick
      by (auto simp: scan_failed_def handleFolderSelect_def perform_def
          split: sum.splits option.splits)
  next
    case False
    then obtain entries where "picker = Inr (entries, None)"
      by (auto simp: scan_failed_def split: sum.splits)
    with FolderClick show ?thesis by auto
  qed
next
  case (FileClick af getFile)
  then show ?thesis
    by (cases getFile)
       (simp_all add: file_onClick_def handleFileSelect_ok transcribeAudio_frame perform_def,
        simp add: handleFileSelect_def perform_def)
qed (auto simp: initTranscriber_def progress_callback_def perform_def
      transcribe_settled_def togglePlayPause_def handleSeek_def handleTimeUpdate_def
      handleLoadedMetadata_def handleEnded_def Let_def array_first_def
      split: sum.splits option.splits list.splits prod.splits js_number.splits)

text \<open>
  Every file the component ever lists has a name of the exact pattern and a year key
  made of \<^verbatim>\<open>20\<close> and two digits.
\<close>

lemma reachable_files_parsed:
  "reachable s \<Longrightarrow> f \<in> set (files s) \<Longrightarrow> parsed_from_name f"
proof (induction arbitrary: f rule: reachable.induct)
  case reachable_init
  then show ?case by (simp add: initial_state_def)
next
  case (reachable_step s ev)
  from app_step_files [of ev s] reachable_step show ?case
    by (auto dest: scanned_parsed_from_name)
qed

subsection \<open>The dates the parser builds\<close>

text \<open>
  For every name the parser accepts, the local time value it hands to the host lies
  strictly between the epoch and the largest time value, so \<^verbatim>\<open>TimeClip\<close> leaves it
  alone and the date is valid.
\<close>

lemma year_month_range: "2000 \<le> Y \<Longrightarrow> Y \<le> 2099 \<Longrightarrow> -1 \<le> M \<Longrightarrow> M \<le> 98 \<Longrightarrow> 1999 \<le> Y + M div 12 \<and> Y + M div 12 \<le> 2107" for Y M :: int
proof -
  assume a: "2000 \<le> Y" "Y \<le> 2099" "-1 \<le> M" "M \<le> 98"
  from a(3) have "(-1) div 12 \<le> M div 12" by (rule zdiv_mono1) simp
  moreover from a(4) have "M div 12 \<le> 98 div 12" by (rule zdiv_mono1) simp
  ultimately show ?thesis using a by simp
qed

lemma DayFromYear_range: "1999 \<le> y \<Longrightarrow> y \<le> 2107 \<Longrightarrow> 10000 \<le> DayFromYear y \<and> DayFromYear y \<le> 51000"
proof -
  assume a: "1999 \<le> y" "y \<le> 2107"
  have "(1999 - 1969) div 4 \<le> (y - 1969) div 4" by (rule zdiv_mono1) (use a in simp_all)
  moreover have "(y - 1969) div 4 \<le> (2107 - 1969) div 4" by (rule zdiv_mono1) (use a in simp_all)
  moreover have "(1999 - 1901) div 100 \<le> (y - 1901) div 100" by (rule zdiv_mono1) (use a in simp_all)
  moreover have "(y - 1901) div 100 \<le> (2107 - 1901) div 100" by (rule zdiv_mono1) (use a in simp_all)
  moreover have "(1999 - 1601) div 400 \<le> (y - 1601) div 400" by (rule zdiv_mono1) (use a in simp_all)
  moreover have "(y - 1601) div 400 \<le> (2107 - 1601) div 400" by (rule zdiv_mono1) (use a in simp_all)
  ultimately show ?thesis using a unfolding DayFromYear_def by simp
qed

lemma month_table_range: "k < 12 \<Longrightarrow> 0 \<le> [0, 31, 59, 90, 120, 151, 181, 212, 243, 273, 304, 334::int] ! k
           \<and> [0, 31, 59, 90, 120, 151, 181, 212, 243, 273, 304, 334::int] ! k \<le> 334"
proof -
  assume "k < 12"
  then have "[0, 31, 59, 90, 120, 151, 181, 212, 243, 273, 304, 334::int] ! k
      \<in> set [0, 31, 59, 90, 120, 151, 181, 212, 243, 273, 304, 334]"
    by (intro nth_mem) simp
  then show ?thesis by auto
qed

lemma digit_val_range:
  "atom_ok Digit c \<Longrightarrow> 0 \<le> digit_val c \<and> digit_val c \<le> 9"
  by (auto simp: digit_val_def)

lemma match_here_Cons:
  "match_here (a # as) s \<longleftrightarrow> (\<exists>c cs. s = c # cs \<and> atom_ok a c \<and> match_here as cs)"
  by (cases s) simp_all

lemma parse_pattern_shape:
  assumes "match_here parse_pattern fn"
  obtains y1 y2 m1 m2 d1 d2 h1 h2 n1 n2 rest where
    "fn = y1 # y2 # m1 # m2 # d1 # d2 # CHR ''_'' # h1 # h2 # n1 # n2 # ''.mp3'' @ rest"
    "atom_ok Digit y1" "atom_ok Digit y2" "atom_ok Digit m1" "atom_ok Digit m2"
    "atom_ok Digit d1" "atom_ok Digit d2" "atom_ok Digit h1" "atom_ok Digit h2"
    "atom_ok Digit n1" "atom_ok Digit n2"
  using assms unfolding parse_pattern_def match_here_Cons
  by (elim exE conjE) (simp del: atom_ok.simps(1))

lemma two_digits:
  "atom_ok Digit a \<Longrightarrow> atom_ok Digit b \<Longrightarrow>
     0 \<le> parseInt [a, b] \<and> parseInt [a, b] \<le> 99"
  using digit_val_range [of a] digit_val_range [of b] by (simp add: parseInt_def)

lemma year_digits:
  "atom_ok Digit a \<Longrightarrow> atom_ok Digit b \<Longrightarrow>
     2000 \<le> parseInt (''20'' @ [a, b]) \<and> parseInt (''20'' @ [a, b]) \<le> 2099"
  using digit_val_range [of a] digit_val_range [of b] by (simp add: parseInt_def digit_val_def [of "CHR ''2''"] digit_val_def [of "CHR ''0''"])

lemma new_Date_in_range:
  assumes "2000 \<le> Y" "Y \<le> 2099" "-1 \<le> M" "M \<le> 98" "0 \<le> D" "D \<le> 99"
     "0 \<le> H" "H \<le> 99" "0 \<le> N" "N \<le> 99"
  shows "0 < new_Date id Y M D H N \<and> new_Date id Y M D H N < 8640000000000000"
proof -
  from year_month_range [OF assms(1-4)] have "10000 \<le> DayFromYear (Y + M div 12)"
    "DayFromYear (Y + M div 12) \<le> 51000" using DayFromYear_range by blast+
  moreover have dbm: "0 \<le> DaysBeforeMonth b (M mod 12) \<and> DaysBeforeMonth b (M mod 12) \<le> 335" for b
  proof -
    define t where "t = [0, 31, 59, 90, 120, 151, 181, 212, 243, 273, 304, 334::int] ! nat (M mod 12)"
    have "nat (M mod 12) < 12" by simp
    from month_table_range [OF this] have "0 \<le> t" "t \<le> 334" by (simp_all only: t_def)
    moreover have "DaysBeforeMonth b (M mod 12) = t + (if b \<and> 2 \<le> M mod 12 then 1 else 0)"
      by (simp only: DaysBeforeMonth_def t_def)
    ultimately show ?thesis by simp
  qed
  ultimately have md: "9999 \<le> MakeDay Y M D" "MakeDay Y M D \<le> 52000"
    using assms(5,6) dbm [of "InLeapYear (Y + M div 12)"]
    unfolding MakeDay_def Let_def by linarith+
  have mt: "0 \<le> MakeTime H N 0 0" "MakeTime H N 0 0 \<le> 400000000"
    using assms(7-10) unfolding MakeTime_def by linarith+
  show ?thesis using md mt unfolding new_Date_def MakeDate_def id_apply by linarith
qed

lemma parsed_fields:
  assumes "fn = y1 # y2 # m1 # m2 # d1 # d2 # CHR ''_'' # h1 # h2 # n1 # n2 # ''.mp3'' @ rest"
    and "match_here parse_pattern fn"
  shows "parseFileName id fn = Some \<lparr> year = ''20'' @ [y1, y2], month = [m1, m2], day = [d1, d2],
       time = [h1, h2] @ '':'' @ [n1, n2],
       fullDate = new_Date id (parseInt (''20'' @ [y1, y2])) (parseInt [m1, m2] - 1)
          (parseInt [d1, d2]) (parseInt [h1, h2]) (parseInt [n1, n2]) \<rparr>"
  unfolding parseFileName_here [OF assms(2), of id] by (simp add: assms(1))

lemma parsed_date_in_range:
  assumes "match_here parse_pattern fn"
  shows "\<exists>d. parseFileName id fn = Some d \<and> 0 < fullDate d \<and> fullDate d < 8640000000000000"
proof (rule parse_pattern_shape [OF assms])
  fix y1 y2 m1 m2 d1 d2 h1 h2 n1 n2 rest
  assume fn: "fn = y1 # y2 # m1 # m2 # d1 # d2 # CHR ''_'' # h1 # h2 # n1 # n2 # ''.mp3'' @ rest"
    and d: "atom_ok Digit y1" "atom_ok Digit y2" "atom_ok Digit m1" "atom_ok Digit m2"
    "atom_ok Digit d1" "atom_ok Digit d2" "atom_ok Digit h1" "atom_ok Digit h2"
    "atom_ok Digit n1" "atom_ok Digit n2"
  note p = parsed_fields [OF fn assms]
  note y = year_digits [OF d(1) d(2)]
  note m = two_digits [OF d(3) d(4)]
  note dd = two_digits [OF d(5) d(6)]
  note h = two_digits [OF d(7) d(8)]
  note n = two_digits [OF d(9) d(10)]
  have "-1 \<le> parseInt [m1, m2] - 1" "parseInt [m1, m2] - 1 \<le> 98"
    using m by linarith+
  from new_Date_in_range [OF y [THEN conjunct1] y [THEN conjunct2] this
      dd [THEN conjunct1] dd [THEN conjunct2] h [THEN conjunct1] h [THEN conjunct2]
      n [THEN conjunct1] n [THEN conjunct2]]
  show ?thesis unfolding p by (simp del: append.simps)
qed

end
